theory Spec2Isabelle
  imports Main "HOL-Library.Word"
begin

unbundle bit_operations_syntax

section \<open>Machine types\<close>

type_synonym u8 = "8 word"
type_synonym u16 = "16 word"
type_synonym u32 = "32 word"
type_synonym u64 = "64 word"

section \<open>xdp\_accelerator.c: the token bucket\<close>

text \<open>
  \<^verbatim>\<open>struct rate_limit { __u64 tokens; __u64 last_update; };\<close>
  The map \<^verbatim>\<open>rate_limit_map\<close> is keyed by the source address (\<^verbatim>\<open>__be32\<close>).
\<close>

record rate_limit =
  tokens :: u64
  last_update :: u64

type_synonym rate_limit_table = "u32 \<rightharpoonup> rate_limit"

text \<open>The two local constants of \<^verbatim>\<open>check_rate_limit\<close>.\<close>

definition rate :: u64 where
  "rate = 10000"

definition burst :: u64 where
  "burst = 1000"

text \<open>
  Lines 208 to 213 of \<^verbatim>\<open>check_rate_limit\<close>: the refill of an existing entry. All
  arithmetic is on \<^verbatim>\<open>__u64\<close>, so subtraction, multiplication and addition wrap and the
  division is the unsigned one.
\<close>

definition refill :: "u64 \<Rightarrow> rate_limit \<Rightarrow> rate_limit" where
  "refill now rl =
     (let tokens_to_add = (now - last_update rl) * rate div 1000000000;
          rl1 = rl\<lparr>tokens := tokens rl + tokens_to_add\<rparr>;
          rl2 = (if tokens rl1 > burst then rl1\<lparr>tokens := burst\<rparr> else rl1)
      in rl2\<lparr>last_update := now\<rparr>)"

text \<open>
  \<^verbatim>\<open>rate_limit_map\<close> is declared as a \<^verbatim>\<open>BPF_MAP_TYPE_HASH\<close> with \<^verbatim>\<open>max_entries\<close> 100000.
  Such a map evicts nothing, and the program never deletes an entry. The map has room for a
  new key while it holds fewer entries than that.
\<close>

definition rate_limit_max_entries :: nat where
  "rate_limit_max_entries = 100000"

definition map_has_room :: "rate_limit_table \<Rightarrow> bool" where
  "map_has_room m = (finite (dom m) \<and> card (dom m) < rate_limit_max_entries)"

text \<open>
  The kernel helper \<^verbatim>\<open>bpf_map_update_elem(&rate_limit_map, &key, &value, BPF_ANY)\<close> on
  that map: the value is stored when the key is present already or the map has room;
  on a full map the call fails and the map stays as it is. The source discards the return
  value, so only the map is modelled.
\<close>

definition bpf_map_update_elem :: "rate_limit_table \<Rightarrow> u32 \<Rightarrow> rate_limit \<Rightarrow> rate_limit_table" where
  "bpf_map_update_elem m key v = (if m key \<noteq> None \<or> map_has_room m then m(key \<mapsto> v) else m)"

text \<open>
  \<^verbatim>\<open>check_rate_limit(src_ip)\<close>. The value of \<^verbatim>\<open>bpf_ktime_get_ns()\<close> is the parameter
  \<open>now\<close>; the map is passed in and returned. \<^verbatim>\<open>bpf_map_lookup_elem\<close> is the lookup of the
  partial map and the writes through the pointer \<^verbatim>\<open>rl\<close> are updates of the entry in
  place. For a new source the function returns true whether or not the entry was stored.
\<close>

definition check_rate_limit :: "u64 \<Rightarrow> rate_limit_table \<Rightarrow> u32 \<Rightarrow> bool \<times> rate_limit_table" where
  "check_rate_limit now m src_ip =
     (case m src_ip of
        None \<Rightarrow> (True, bpf_map_update_elem m src_ip \<lparr>tokens = burst, last_update = now\<rparr>)
      | Some rl \<Rightarrow>
          (let rl' = refill now rl
           in if tokens rl' > 0
              then (True, m(src_ip \<mapsto> rl'\<lparr>tokens := tokens rl' - 1\<rparr>))
              else (False, m(src_ip \<mapsto> rl'))))"

text \<open>
  A sequence of calls for one source address, one call per timestamp, in order. The
  result is the list of return values and the final map.
\<close>

fun rate_limit_calls :: "rate_limit_table \<Rightarrow> u32 \<Rightarrow> u64 list \<Rightarrow> bool list \<times> rate_limit_table" where
  "rate_limit_calls m src_ip [] = ([], m)"
| "rate_limit_calls m src_ip (now # ts) =
     (let (ok, m') = check_rate_limit now m src_ip;
          (oks, m'') = rate_limit_calls m' src_ip ts
      in (ok # oks, m''))"

definition successes :: "bool list \<Rightarrow> nat" where
  "successes oks = length (filter (\<lambda>b. b) oks)"

text \<open>
  Calls that follow each other closely: starting from the time \<open>u\<close> of the previous
  call, every timestamp is at or after the one before it and less than 100000 ns
  (the time one token takes at 10000 tokens a second) later.
\<close>

fun back_to_back :: "u64 \<Rightarrow> u64 list \<Rightarrow> bool" where
  "back_to_back u [] = True"
| "back_to_back u (t # ts) = (u \<le> t \<and> t - u < 100000 \<and> back_to_back t ts)"

section \<open>xdp\_accelerator.c: packets and headers\<close>

text \<open>
  A packet is the list of its captured bytes: \<^verbatim>\<open>data\<close> is offset 0 and \<^verbatim>\<open>data_end\<close> is the
  length of the list, so a pointer into the packet is an offset. \<^verbatim>\<open>bpf_htons\<close> and
  \<^verbatim>\<open>bpf_ntohs\<close> come from \<^verbatim>\<open>bpf/bpf_endian.h\<close>: a byte swap on a little-endian target, the
  identity on a big-endian one. The byte order of the target is a parameter of the model.
\<close>

datatype byte_order = Little_endian | Big_endian

definition bswap16 :: "u16 \<Rightarrow> u16" where
  "bswap16 x = push_bit 8 x OR drop_bit 8 x"

definition bpf_htons :: "byte_order \<Rightarrow> u16 \<Rightarrow> u16" where
  "bpf_htons bo x = (case bo of Little_endian \<Rightarrow> bswap16 x | Big_endian \<Rightarrow> x)"

definition bpf_ntohs :: "byte_order \<Rightarrow> u16 \<Rightarrow> u16" where
  "bpf_ntohs bo x = (case bo of Little_endian \<Rightarrow> bswap16 x | Big_endian \<Rightarrow> x)"

text \<open>Loads of 8, 16 and 32 bits at an offset, as the target reads them from memory.\<close>

definition load8 :: "u8 list \<Rightarrow> nat \<Rightarrow> u8" where
  "load8 mem off = mem ! off"

definition load16 :: "byte_order \<Rightarrow> u8 list \<Rightarrow> nat \<Rightarrow> u16" where
  "load16 bo mem off =
     (case bo of
        Little_endian \<Rightarrow> push_bit 8 (ucast (mem ! (off + 1))) OR ucast (mem ! off)
      | Big_endian \<Rightarrow> push_bit 8 (ucast (mem ! off)) OR ucast (mem ! (off + 1)))"

definition load32 :: "byte_order \<Rightarrow> u8 list \<Rightarrow> nat \<Rightarrow> u32" where
  "load32 bo mem off =
     (case bo of
        Little_endian \<Rightarrow> push_bit 16 (ucast (load16 bo mem (off + 2))) OR ucast (load16 bo mem off)
      | Big_endian \<Rightarrow> push_bit 16 (ucast (load16 bo mem off)) OR ucast (load16 bo mem (off + 2)))"

text \<open>Constants of the kernel headers the program includes.\<close>

definition ETH_P_IP :: u16 where "ETH_P_IP = 0x0800"
definition IPPROTO_TCP :: u8 where "IPPROTO_TCP = 6"
definition IPPROTO_UDP :: u8 where "IPPROTO_UDP = 17"
definition IP_MF :: u16 where "IP_MF = 0x2000"
definition IP_OFFSET :: u16 where "IP_OFFSET = 0x1FFF"

definition WIREGUARD_PORT :: u16 where "WIREGUARD_PORT = 51820"
definition WIREGUARD_MESSAGE_DATA :: u8 where "WIREGUARD_MESSAGE_DATA = 4"

text \<open>
  The sizes of \<^verbatim>\<open>struct ethhdr\<close>, \<^verbatim>\<open>struct iphdr\<close>, \<^verbatim>\<open>struct udphdr\<close>,
  \<^verbatim>\<open>struct tcphdr\<close> and of the packed \<^verbatim>\<open>struct wireguard_header\<close>.
\<close>

definition sizeof_ethhdr :: nat where "sizeof_ethhdr = 14"
definition sizeof_iphdr :: nat where "sizeof_iphdr = 20"
definition sizeof_udphdr :: nat where "sizeof_udphdr = 8"
definition sizeof_tcphdr :: nat where "sizeof_tcphdr = 20"
definition sizeof_wireguard_header :: nat where "sizeof_wireguard_header = 16"

text \<open>The header fields the program reads, by their offsets in the headers.\<close>

definition ethhdr_h_proto :: "byte_order \<Rightarrow> u8 list \<Rightarrow> nat \<Rightarrow> u16" where
  "ethhdr_h_proto bo mem eth = load16 bo mem (eth + 12)"

definition iphdr_ihl :: "u8 list \<Rightarrow> nat \<Rightarrow> u8" where
  "iphdr_ihl mem ip = load8 mem ip AND 0x0F"

definition iphdr_tos :: "u8 list \<Rightarrow> nat \<Rightarrow> u8" where
  "iphdr_tos mem ip = load8 mem (ip + 1)"

definition iphdr_tot_len :: "byte_order \<Rightarrow> u8 list \<Rightarrow> nat \<Rightarrow> u16" where
  "iphdr_tot_len bo mem ip = load16 bo mem (ip + 2)"

definition iphdr_frag_off :: "byte_order \<Rightarrow> u8 list \<Rightarrow> nat \<Rightarrow> u16" where
  "iphdr_frag_off bo mem ip = load16 bo mem (ip + 6)"

definition iphdr_ttl :: "u8 list \<Rightarrow> nat \<Rightarrow> u8" where
  "iphdr_ttl mem ip = load8 mem (ip + 8)"

definition iphdr_protocol :: "u8 list \<Rightarrow> nat \<Rightarrow> u8" where
  "iphdr_protocol mem ip = load8 mem (ip + 9)"

definition iphdr_saddr :: "byte_order \<Rightarrow> u8 list \<Rightarrow> nat \<Rightarrow> u32" where
  "iphdr_saddr bo mem ip = load32 bo mem (ip + 12)"

definition iphdr_daddr :: "byte_order \<Rightarrow> u8 list \<Rightarrow> nat \<Rightarrow> u32" where
  "iphdr_daddr bo mem ip = load32 bo mem (ip + 16)"

definition udphdr_source :: "byte_order \<Rightarrow> u8 list \<Rightarrow> nat \<Rightarrow> u16" where
  "udphdr_source bo mem udp = load16 bo mem udp"

definition udphdr_dest :: "byte_order \<Rightarrow> u8 list \<Rightarrow> nat \<Rightarrow> u16" where
  "udphdr_dest bo mem udp = load16 bo mem (udp + 2)"

definition tcphdr_syn :: "u8 list \<Rightarrow> nat \<Rightarrow> bool" where
  "tcphdr_syn mem tcp = bit (load8 mem (tcp + 13)) 1"

definition tcphdr_ack :: "u8 list \<Rightarrow> nat \<Rightarrow> bool" where
  "tcphdr_ack mem tcp = bit (load8 mem (tcp + 13)) 4"

definition wireguard_header_type :: "u8 list \<Rightarrow> nat \<Rightarrow> u8" where
  "wireguard_header_type mem wg = load8 mem wg"

section \<open>xdp\_accelerator.c: the ingress filter\<close>

record vpn_stats =
  rx_packets :: u64
  rx_bytes :: u64
  tx_packets :: u64
  tx_bytes :: u64
  dropped_packets :: u64
  invalid_packets :: u64

record flow_key =
  src_ip :: u32
  dst_ip :: u32
  src_port :: u16
  dst_port :: u16
  protocol :: u8

record flow_state =
  packets :: u64
  bytes :: u64
  last_seen :: u64
  state :: u8

datatype xdp_action = XDP_ABORTED | XDP_DROP | XDP_PASS | XDP_TX | XDP_REDIRECT

text \<open>The maps of the program: the state a call of \<^verbatim>\<open>xdp_vpn_filter\<close> reads and writes.\<close>

record xdp_maps =
  stats_map :: "u32 \<rightharpoonup> vpn_stats"
  flow_table :: "flow_key \<rightharpoonup> flow_state"
  rate_limit_map :: rate_limit_table

text \<open>
  What the kernel helpers return during one call: the byte order of the target, the two
  readings of \<^verbatim>\<open>bpf_ktime_get_ns()\<close> (in \<^verbatim>\<open>check_rate_limit\<close> and at the flow update) and
  the value of \<^verbatim>\<open>bpf_redirect_map(&cpu_map, bpf_get_smp_processor_id(), 0)\<close>.
\<close>

record xdp_env =
  host_order :: byte_order
  ktime_rate_limit :: u64
  ktime_flow :: u64
  redirect_map_result :: xdp_action

text \<open>
  \<^verbatim>\<open>is_ddos_pattern(ip, data_end)\<close>. The second test compares two pointers,
  \<^verbatim>\<open>(void *)ip + bpf_ntohs(ip->tot_len)\<close> and \<^verbatim>\<open>data_end - 64\<close>; as offsets from \<^verbatim>\<open>data\<close>
  the right-hand side can be negative, so the comparison is on integers.
\<close>

definition is_ddos_pattern :: "byte_order \<Rightarrow> u8 list \<Rightarrow> nat \<Rightarrow> bool" where
  "is_ddos_pattern bo pkt ip =
     (let data_end = length pkt in
      if iphdr_frag_off bo pkt ip AND bpf_htons bo (IP_MF OR IP_OFFSET) \<noteq> 0 then True
      else if int ip + int (unat (bpf_ntohs bo (iphdr_tot_len bo pkt ip))) < int data_end - 64
        then True
      else if iphdr_ttl pkt ip < 5 then True
      else if iphdr_protocol pkt ip = IPPROTO_TCP then
        (let tcp = ip + unat (iphdr_ihl pkt ip) * 4 in
         if tcp + sizeof_tcphdr \<le> data_end
         then (if tcphdr_syn pkt tcp \<and> \<not> tcphdr_ack pkt tcp then True else False)
         else False)
      else False)"

text \<open>The two guarded counter updates \<^verbatim>\<open>if (stats) __sync_fetch_and_add(...)\<close>.\<close>

definition count_rx :: "xdp_maps \<Rightarrow> nat \<Rightarrow> xdp_maps" where
  "count_rx s n =
     (case stats_map s 0 of
        None \<Rightarrow> s
      | Some st \<Rightarrow>
          s\<lparr>stats_map := (stats_map s)
               (0 \<mapsto> st\<lparr>rx_packets := rx_packets st + 1, rx_bytes := rx_bytes st + of_nat n\<rparr>)\<rparr>)"

definition count_dropped :: "xdp_maps \<Rightarrow> xdp_maps" where
  "count_dropped s =
     (case stats_map s 0 of
        None \<Rightarrow> s
      | Some st \<Rightarrow>
          s\<lparr>stats_map := (stats_map s)(0 \<mapsto> st\<lparr>dropped_packets := dropped_packets st + 1\<rparr>)\<rparr>)"

text \<open>
  Lines 133 to 175 of \<^verbatim>\<open>xdp_vpn_filter\<close>: the block for UDP packets. The result is
  \<open>Some\<close> of the verdict where the block returns, and \<open>None\<close> where control leaves the
  block and goes on to the DDoS check.
\<close>

definition xdp_udp_block :: "xdp_env \<Rightarrow> xdp_maps \<Rightarrow> u8 list \<Rightarrow> nat \<Rightarrow> xdp_action option \<times> xdp_maps" where
  "xdp_udp_block env s pkt ip =
     (let data_end = length pkt;
          bo = host_order env;
          udp = ip + unat (iphdr_ihl pkt ip) * 4
      in if udp + sizeof_udphdr > data_end then (Some XDP_DROP, s)
         else if udphdr_dest bo pkt udp = bpf_htons bo WIREGUARD_PORT then
           (let wg = udp + sizeof_udphdr
            in if wg + sizeof_wireguard_header > data_end then (Some XDP_DROP, s)
               else
                 (let (ok, rlm) = check_rate_limit (ktime_rate_limit env) (rate_limit_map s)
                                    (iphdr_saddr bo pkt ip);
                      s1 = s\<lparr>rate_limit_map := rlm\<rparr>
                  in if \<not> ok then (Some XDP_DROP, count_dropped s1)
                     else if wireguard_header_type pkt wg = WIREGUARD_MESSAGE_DATA then
                       (let flow = \<lparr>src_ip = iphdr_saddr bo pkt ip,
                                    dst_ip = iphdr_daddr bo pkt ip,
                                    src_port = udphdr_source bo pkt udp,
                                    dst_port = udphdr_dest bo pkt udp,
                                    protocol = IPPROTO_UDP\<rparr>
                        in case flow_table s1 flow of
                             Some st \<Rightarrow>
                               (Some (redirect_map_result env),
                                s1\<lparr>flow_table := (flow_table s1)
                                     (flow \<mapsto> st\<lparr>packets := packets st + 1,
                                                  bytes := bytes st + of_nat data_end,
                                                  last_seen := ktime_flow env\<rparr>)\<rparr>)
                           | None \<Rightarrow> (None, s1))
                     else (None, s1)))
         else (None, s))"

text \<open>Lines 113 to 175: everything \<^verbatim>\<open>xdp_vpn_filter\<close> does before the DDoS check.\<close>

definition xdp_before_ddos_check :: "xdp_env \<Rightarrow> xdp_maps \<Rightarrow> u8 list \<Rightarrow> xdp_action option \<times> xdp_maps" where
  "xdp_before_ddos_check env s pkt =
     (let data_end = length pkt;
          bo = host_order env;
          eth = 0
      in if eth + sizeof_ethhdr > data_end then (Some XDP_DROP, s)
         else
           (let s1 = count_rx s data_end
            in if ethhdr_h_proto bo pkt eth \<noteq> bpf_htons bo ETH_P_IP then (Some XDP_PASS, s1)
               else
                 (let ip = eth + sizeof_ethhdr
                  in if ip + sizeof_iphdr > data_end then (Some XDP_DROP, s1)
                     else if iphdr_protocol pkt ip = IPPROTO_UDP then xdp_udp_block env s1 pkt ip
                     else (None, s1))))"

text \<open>\<^verbatim>\<open>xdp_vpn_filter(ctx)\<close>: the verdict and the maps after the call.\<close>

definition xdp_vpn_filter :: "xdp_env \<Rightarrow> xdp_maps \<Rightarrow> u8 list \<Rightarrow> xdp_action \<times> xdp_maps" where
  "xdp_vpn_filter env s pkt =
     (case xdp_before_ddos_check env s pkt of
        (Some verdict, s') \<Rightarrow> (verdict, s')
      | (None, s') \<Rightarrow>
          if is_ddos_pattern (host_order env) pkt sizeof_ethhdr
          then (XDP_DROP, count_dropped s')
          else (XDP_PASS, s'))"

section \<open>xdp\_accelerator.c: the egress program\<close>

text \<open>
  The fields of \<^verbatim>\<open>struct __sk_buff\<close> the program uses: the bytes between \<^verbatim>\<open>data\<close> and
  \<^verbatim>\<open>data_end\<close>, the length \<^verbatim>\<open>len\<close> of the packet and the earliest transmit time
  \<^verbatim>\<open>tstamp\<close>.
\<close>

record sk_buff =
  data :: "u8 list"
  len :: u32
  tstamp :: u64

datatype tc_action = TC_ACT_OK | TC_ACT_SHOT

text \<open>\<^verbatim>\<open>calculate_pacing_delay(pkt_len)\<close>, in \<^verbatim>\<open>__u64\<close> arithmetic.\<close>

definition target_bps :: u64 where
  "target_bps = 10 * 1000 * 1000 * 1000"

definition ns_per_byte :: u64 where
  "ns_per_byte = 1000000000 * 8 div target_bps"

definition calculate_pacing_delay :: "u32 \<Rightarrow> u64" where
  "calculate_pacing_delay pkt_len = ucast pkt_len * ns_per_byte"

text \<open>Lines 274 to 288 of \<^verbatim>\<open>tc_vpn_egress\<close>: the DSCP marking of a UDP packet.\<close>

definition set_tos :: "sk_buff \<Rightarrow> nat \<Rightarrow> u8 \<Rightarrow> sk_buff" where
  "set_tos skb ip v = skb\<lparr>data := (data skb)[ip + 1 := v]\<rparr>"

definition tc_mark_dscp :: "byte_order \<Rightarrow> sk_buff \<Rightarrow> nat \<Rightarrow> sk_buff" where
  "tc_mark_dscp bo skb ip =
     (let pkt = data skb;
          data_end = length pkt;
          udp = ip + unat (iphdr_ihl pkt ip) * 4
      in if udp + sizeof_udphdr \<le> data_end then
           (let dest = udphdr_dest bo pkt udp
            in if dest = bpf_htons bo 5060 \<or> dest = bpf_htons bo 5061 then set_tos skb ip 0xb8
               else if dest \<ge> bpf_htons bo 27000 \<and> dest \<le> bpf_htons bo 27100
                 then set_tos skb ip 0x88
               else if dest = bpf_htons bo WIREGUARD_PORT then set_tos skb ip 0x68
               else skb)
         else skb)"

text \<open>
  \<^verbatim>\<open>tc_vpn_egress(skb)\<close>; \<open>now\<close> is the value of \<^verbatim>\<open>bpf_ktime_get_ns()\<close>.
\<close>

definition tc_vpn_egress :: "byte_order \<Rightarrow> u64 \<Rightarrow> sk_buff \<Rightarrow> tc_action \<times> sk_buff" where
  "tc_vpn_egress bo now skb =
     (let pkt = data skb;
          data_end = length pkt;
          eth = 0
      in if eth + sizeof_ethhdr > data_end then (TC_ACT_OK, skb)
         else if ethhdr_h_proto bo pkt eth \<noteq> bpf_htons bo ETH_P_IP then (TC_ACT_OK, skb)
         else
           (let ip = eth + sizeof_ethhdr
            in if ip + sizeof_iphdr > data_end then (TC_ACT_OK, skb)
               else
                 (let skb1 = (if iphdr_protocol pkt ip = IPPROTO_UDP
                              then tc_mark_dscp bo skb ip else skb);
                      delay = calculate_pacing_delay (len skb1);
                      skb2 = (if delay > 0 then skb1\<lparr>tstamp := now + delay\<rparr> else skb1)
                  in (TC_ACT_OK, skb2))))"

section \<open>wireguard\_manager.c\<close>

subsection \<open>Message limits\<close>

text \<open>
  \<^verbatim>\<open>#define REKEY_AFTER_MESSAGES (1ULL << 60)\<close> and
  \<^verbatim>\<open>#define REJECT_AFTER_MESSAGES (1ULL << 64)\<close>, as values of the 64-bit type
  \<^verbatim>\<open>unsigned long long\<close>, with the shift taken modulo \<open>2 ^ 64\<close>.
\<close>

definition REKEY_AFTER_MESSAGES :: u64 where
  "REKEY_AFTER_MESSAGES = push_bit 60 1"

definition REJECT_AFTER_MESSAGES :: u64 where
  "REJECT_AFTER_MESSAGES = push_bit 64 1"

subsection \<open>Kill switch\<close>

text \<open>
  The device, with the fields \<^verbatim>\<open>undertheradar_enable_kill_switch\<close> uses
  (\<^verbatim>\<open>wg->dev->name\<close> and \<^verbatim>\<open>wg->kill_switch_enabled\<close>).
\<close>

record undertheradar_device =
  dev_name :: string
  kill_switch_enabled :: bool

text \<open>
  What the firewall collaborator answers during one call: whether the first
  \<^verbatim>\<open>iptables_create_rule\<close> returns a rule (the source does not test the second), and
  the return values of the two calls of \<^verbatim>\<open>iptables_add_rule\<close>.
\<close>

record iptables_answers =
  create_first :: bool
  add_first :: int
  add_second :: int

definition ENOMEM :: int where
  "ENOMEM = 12"

text \<open>
  Modelled from the spec: \<^verbatim>\<open>iptables_add_rule\<close> is not part of the sources. It is the
  \<^verbatim>\<open>install_rule(spec)\<close> of the firewall collaborator: with a negative return value
  nothing is installed, otherwise the rule is appended to the installed rules.
\<close>

definition iptables_add_rule :: "int \<Rightarrow> string \<Rightarrow> string list \<Rightarrow> int \<times> string list" where
  "iptables_add_rule ret rule installed =
     (if ret < 0 then (ret, installed) else (ret, installed @ [rule]))"

text \<open>
  \<^verbatim>\<open>undertheradar_enable_kill_switch(wg)\<close>: the return value, the device and the
  installed rules after the call.
\<close>

definition undertheradar_enable_kill_switch ::
  "iptables_answers \<Rightarrow> undertheradar_device \<Rightarrow> string list \<Rightarrow> int \<times> undertheradar_device \<times> string list" where
  "undertheradar_enable_kill_switch env wg installed =
     (if kill_switch_enabled wg then (0, wg, installed)
      else if \<not> create_first env then (- ENOMEM, wg, installed)
      else
        (let (ret, installed1) =
               iptables_add_rule (add_first env)
                 (''-A OUTPUT -o '' @ dev_name wg @ '' -j ACCEPT'') installed
         in if ret < 0 then (ret, wg, installed1)
            else
              (let (ret2, installed2) =
                     iptables_add_rule (add_second env) ''-A OUTPUT -j DROP'' installed1
               in (ret2, wg\<lparr>kill_switch_enabled := True\<rparr>, installed2))))"

subsection \<open>Peers: handshake retry and routing\<close>

text \<open>
  The fields of \<^verbatim>\<open>struct undertheradar_peer\<close> that the retry handler and the routing
  lookup read or write. The source uses \<^verbatim>\<open>handshake_failures\<close>,
  \<^verbatim>\<open>handshake_retry_interval\<close> and \<^verbatim>\<open>last_handshake_rtt\<close> without declaring them.
  The retry interval is added to \<^verbatim>\<open>jiffies\<close> and passed to \<^verbatim>\<open>mod_timer\<close>, so it is an
  \<^verbatim>\<open>unsigned long\<close> like them, 64 bits wide as on a 64-bit kernel: doubling it and adding
  it to \<^verbatim>\<open>jiffies\<close> wrap. \<^verbatim>\<open>last_handshake_rtt\<close> is a \<^verbatim>\<open>u64\<close> like the load it is added
  to. \<^verbatim>\<open>handshake_failures\<close> is only compared with 3 and is a natural number.
  \<open>peer_id\<close> names the peer object (in the source, its address); no function reads it.
\<close>

record undertheradar_peer =
  peer_id :: nat
  tx_bytes :: u64
  last_handshake_rtt :: u64
  handshake_failures :: nat
  handshake_retry_interval :: u64

text \<open>What the retry handler asks of its collaborators, in the order of the calls.\<close>

datatype handshake_action =
    Try_alternative_endpoint
  | Send_handshake_initiation
  | Mod_timer u64

text \<open>
  \<^verbatim>\<open>undertheradar_peer_check_handshake(timer)\<close>. \<open>max_retry\<close> is the macro
  \<^verbatim>\<open>MAX_HANDSHAKE_RETRY\<close>, which the sources do not define, and \<open>jiffies\<close> the value of the
  kernel's clock at the call.
\<close>

definition undertheradar_peer_check_handshake ::
  "u64 \<Rightarrow> u64 \<Rightarrow> undertheradar_peer \<Rightarrow> undertheradar_peer \<times> handshake_action list" where
  "undertheradar_peer_check_handshake max_retry jiffies peer =
     (let failover = (if handshake_failures peer > 3 then [Try_alternative_endpoint] else []);
          peer' = peer\<lparr>handshake_retry_interval :=
                          min (handshake_retry_interval peer * 2) max_retry\<rparr>
      in (peer',
          failover @ [Send_handshake_initiation,
                      Mod_timer (jiffies + handshake_retry_interval peer')]))"

text \<open>
  Consecutive expiries of the retry timer, one per reading of \<open>jiffies\<close>: the peer after
  the last one and all actions taken.
\<close>

fun retry_expiries ::
  "u64 \<Rightarrow> u64 list \<Rightarrow> undertheradar_peer \<Rightarrow> undertheradar_peer \<times> handshake_action list" where
  "retry_expiries max_retry [] peer = (peer, [])"
| "retry_expiries max_retry (j # js) peer =
     (let (peer1, acts1) = undertheradar_peer_check_handshake max_retry j peer;
          (peer2, acts2) = retry_expiries max_retry js peer1
      in (peer2, acts1 @ acts2))"

text \<open>
  \<^verbatim>\<open>undertheradar_routing_lookup(wg, skb)\<close>. The loop over \<^verbatim>\<open>wg->peer_list\<close> carries
  \<^verbatim>\<open>lowest_load\<close> and \<^verbatim>\<open>best_peer\<close>; \<open>matches\<close> is
  \<^verbatim>\<open>undertheradar_peer_matches_skb(peer, skb)\<close> for the packet at hand. \<open>None\<close> is the
  \<^verbatim>\<open>NULL\<close> result.
\<close>

definition U64_MAX :: u64 where
  "U64_MAX = - 1"

definition peer_load :: "undertheradar_peer \<Rightarrow> u64" where
  "peer_load peer = tx_bytes peer + last_handshake_rtt peer * 1000"

fun routing_loop ::
  "(undertheradar_peer \<Rightarrow> bool) \<Rightarrow> undertheradar_peer list \<Rightarrow>
   u64 \<times> undertheradar_peer option \<Rightarrow> u64 \<times> undertheradar_peer option" where
  "routing_loop matches [] (lowest_load, best_peer) = (lowest_load, best_peer)"
| "routing_loop matches (peer # peers) (lowest_load, best_peer) =
     (if \<not> matches peer then routing_loop matches peers (lowest_load, best_peer)
      else
        (let load = peer_load peer
         in if load < lowest_load then routing_loop matches peers (load, Some peer)
            else routing_loop matches peers (lowest_load, best_peer)))"

definition undertheradar_routing_lookup ::
  "(undertheradar_peer \<Rightarrow> bool) \<Rightarrow> undertheradar_peer list \<Rightarrow> undertheradar_peer option" where
  "undertheradar_routing_lookup matches peer_list =
     snd (routing_loop matches peer_list (U64_MAX, None))"

section \<open>Concrete inputs\<close>

text \<open>
  An Ethernet frame of 42 bytes: an IPv4 header without options (time to live 64, protocol
  UDP, from 10.0.0.5 to 10.0.0.1, no fragment bits) and a UDP header from port 12345. The
  two bytes of the declared total length and of the destination port are parameters, in
  network order.
\<close>

definition udp_headers :: "u8 \<Rightarrow> u8 \<Rightarrow> u8 \<Rightarrow> u8 \<Rightarrow> u8 list" where
  "udp_headers len_hi len_lo port_hi port_lo =
     [0, 0, 0, 0, 0, 1, 0, 0, 0, 0, 0, 2, 0x08, 0x00,
      0x45, 0, len_hi, len_lo, 0, 0, 0, 0, 64, 17, 0, 0, 10, 0, 0, 5, 10, 0, 0, 1,
      0x30, 0x39, port_hi, port_lo, 0, 8, 0, 0]"

text \<open>The same headers with a declared total length of 28, followed by 70 bytes of padding.\<close>

definition padded_packet :: "u8 list" where
  "padded_packet = udp_headers 0 28 0 53 @ replicate 70 0"

text \<open>Empty maps and a little-endian target.\<close>

definition no_maps :: xdp_maps where
  "no_maps = \<lparr>stats_map = Map.empty, flow_table = Map.empty, rate_limit_map = Map.empty\<rparr>"

definition le_env :: xdp_env where
  "le_env = \<lparr>host_order = Little_endian, ktime_rate_limit = 0, ktime_flow = 0,
             redirect_map_result = XDP_REDIRECT\<rparr>"


text \<open>A predicate that matches every peer, and peers with given counters.\<close>

definition every_peer :: "undertheradar_peer \<Rightarrow> bool" where
  "every_peer peer = True"

definition idle_peer :: "nat \<Rightarrow> undertheradar_peer" where
  "idle_peer n = \<lparr>peer_id = n, tx_bytes = 0, last_handshake_rtt = 0,
                   handshake_failures = 0, handshake_retry_interval = 5\<rparr>"

definition loaded_peer :: "nat \<Rightarrow> u64 \<Rightarrow> u64 \<Rightarrow> undertheradar_peer" where
  "loaded_peer n sent rtt = \<lparr>peer_id = n, tx_bytes = sent, last_handshake_rtt = rtt,
                   handshake_failures = 0, handshake_retry_interval = 5\<rparr>"

section \<open>Properties of the token bucket\<close>

lemma burst_unat: "unat burst = 1000"
  by (simp add: burst_def)

lemma refill_tokens_le: "tokens (refill now rl) \<le> burst"
  by (simp add: refill_def Let_def not_less)

lemma refill_last_update: "last_update (refill now rl) = now"
  by (simp add: refill_def Let_def)

lemma unat_mult_rate: "unat (d * rate) = unat d * 10000 mod 2 ^ 64"
  by (simp add: rate_def unat_word_ariths)

lemma no_refill_within_gap:
  assumes "u \<le> t" "t - u < (100000::u64)"
  shows "(t - u) * rate div 1000000000 = 0"
proof -
  have a: "unat (t - u) < 100000" using assms(2) by (simp add: word_less_nat_alt)
  have "unat ((t - u) * rate) = unat (t - u) * 10000"
    using a by (simp add: unat_mult_rate)
  then have "unat ((t - u) * rate) < 1000000000" using a by simp
  then have "unat ((t - u) * rate div 1000000000) = 0"
    by (simp add: unat_div)
  then show ?thesis by (simp add: unat_eq_0)
qed

lemma refill_within_gap:
  assumes "last_update rl \<le> t" "t - last_update rl < 100000" "tokens rl \<le> burst"
  shows "refill t rl = rl\<lparr>last_update := t\<rparr>"
  using assms no_refill_within_gap[OF assms(1,2)]
  by (simp add: refill_def Let_def not_less)

lemma drain_entry:
  "m ip = Some rl \<Longrightarrow> tokens rl \<le> burst \<Longrightarrow> back_to_back (last_update rl) ts \<Longrightarrow>
   fst (rate_limit_calls m ip ts) =
     replicate (min (unat (tokens rl)) (length ts)) True @
     replicate (length ts - unat (tokens rl)) False"
proof (induction ts arbitrary: m rl)
  case Nil
  then show ?case by simp
next
  case (Cons t ts)
  have r: "refill t rl = rl\<lparr>last_update := t\<rparr>"
    using Cons.prems by (simp add: refill_within_gap)
  show ?case
  proof (cases "tokens rl = 0")
    case True
    let ?m' = "m(ip \<mapsto> rl\<lparr>last_update := t\<rparr>)"
    have c: "check_rate_limit t m ip = (False, ?m')"
      using Cons.prems(1) True r by (simp add: check_rate_limit_def Let_def)
    have "fst (rate_limit_calls ?m' ip ts) =
          replicate (min (unat (tokens (rl\<lparr>last_update := t\<rparr>))) (length ts)) True @
          replicate (length ts - unat (tokens (rl\<lparr>last_update := t\<rparr>))) False"
      using Cons.prems by (intro Cons.IH) simp_all
    then show ?thesis using c True
      by (simp add: split_beta)
  next
    case False
    let ?rl' = "rl\<lparr>last_update := t, tokens := tokens rl - 1\<rparr>"
    let ?m' = "m(ip \<mapsto> ?rl')"
    have pos: "0 < tokens rl" using False by (simp add: word_greater_zero_iff)
    have c: "check_rate_limit t m ip = (True, ?m')"
      using Cons.prems(1) pos r by (simp add: check_rate_limit_def Let_def)
    have u: "unat (tokens rl - 1) = unat (tokens rl) - 1"
      using False by (simp add: unat_minus_one)
    have le: "tokens rl - 1 \<le> burst"
      using Cons.prems(2) u by (simp add: word_le_nat_alt)
    have "fst (rate_limit_calls ?m' ip ts) =
          replicate (min (unat (tokens ?rl')) (length ts)) True @
          replicate (length ts - unat (tokens ?rl')) False"
      using Cons.prems le by (intro Cons.IH) simp_all
    moreover have "0 < unat (tokens rl)" using False by (simp add: unat_gt_0)
    ultimately show ?thesis using c u
      by (cases "unat (tokens rl)") (simp_all add: split_beta min_def)
  qed
qed

lemma check_rate_limit_new_source:
  "m ip = None \<Longrightarrow> map_has_room m \<Longrightarrow>
   check_rate_limit now m ip = (True, m(ip \<mapsto> \<lparr>tokens = burst, last_update = now\<rparr>))"
  by (simp add: check_rate_limit_def bpf_map_update_elem_def)

lemma check_rate_limit_full_map:
  "m ip = None \<Longrightarrow> \<not> map_has_room m \<Longrightarrow> check_rate_limit now m ip = (True, m)"
  by (simp add: check_rate_limit_def bpf_map_update_elem_def)


lemma empty_map_has_room: "map_has_room Map.empty"
  by (simp add: map_has_room_def rate_limit_max_entries_def)

lemma fresh_source_calls:
  assumes "m ip = None" "map_has_room m" "back_to_back now ts"
  shows "fst (rate_limit_calls m ip (now # ts)) =
           True # replicate (min 1000 (length ts)) True @ replicate (length ts - 1000) False"
proof -
  let ?rl = "\<lparr>tokens = burst, last_update = now\<rparr>"
  let ?m' = "m(ip \<mapsto> ?rl)"
  have c: "check_rate_limit now m ip = (True, ?m')"
    using assms(1,2) by (rule check_rate_limit_new_source)
  have "fst (rate_limit_calls ?m' ip ts) =
     replicate (min (unat (tokens ?rl)) (length ts)) True @
     replicate (length ts - unat (tokens ?rl)) False"
    using assms(3) by (intro drain_entry) simp_all
  then show ?thesis using c by (simp add: split_beta burst_unat)
qed

lemma back_to_back_replicate: "back_to_back t (replicate n t)"
  by (induction n) simp_all

text \<open>
  Claim C9. After every call of \<^verbatim>\<open>check_rate_limit\<close>, whatever the map held before, any
  entry found for the source address has at most the burst capacity of 1000 tokens (and at
  least 0, the counter being unsigned). The refill never leaves more than the burst
  capacity. On an existing entry the call returns true exactly when the refilled count is
  positive, and then the stored count is the refilled count minus one, without wrap-around;
  when it returns false the count was 0 and stays 0.
\<close>

theorem check_rate_limit_keeps_invariant:
  "(\<forall>rl'. snd (check_rate_limit now m ip) ip = Some rl' \<longrightarrow>
           tokens rl' \<le> burst \<and> unat (tokens rl') \<le> 1000) \<and>
   tokens (refill now rl) \<le> burst \<and>
   (m ip = Some rl \<longrightarrow>
      (\<exists>rl'. snd (check_rate_limit now m ip) ip = Some rl' \<and>
         (if fst (check_rate_limit now m ip)
          then 0 < unat (tokens (refill now rl)) \<and>
               unat (tokens rl') = unat (tokens (refill now rl)) - 1
          else tokens (refill now rl) = 0 \<and> tokens rl' = 0)))"
proof (intro conjI impI allI)
  show "tokens (refill now rl) \<le> burst" by (rule refill_tokens_le)
next
  fix rl'
  assume found: "snd (check_rate_limit now m ip) ip = Some rl'"
  show "tokens rl' \<le> burst"
  proof (cases "m ip")
    case None
    then show ?thesis using found
      by (cases "map_has_room m")
         (auto simp add: check_rate_limit_new_source check_rate_limit_full_map)
  next
    case (Some rl0)
    have le: "unat (tokens (refill now rl0)) \<le> 1000"
      using refill_tokens_le[of now rl0] by (simp add: word_le_nat_alt burst_unat)
    show ?thesis
    proof (cases "tokens (refill now rl0) = 0")
      case True
      then show ?thesis using Some found by (auto simp add: check_rate_limit_def Let_def)
    next
      case False
      then have pos: "0 < tokens (refill now rl0)" by (simp add: word_greater_zero_iff)
      have u: "unat (tokens (refill now rl0) - 1) = unat (tokens (refill now rl0)) - 1"
        using False by (simp add: unat_minus_one)
      then have "unat (tokens (refill now rl0) - 1) \<le> 1000" using le by simp
      then show ?thesis using Some pos found
        by (auto simp add: check_rate_limit_def Let_def word_le_nat_alt burst_unat)
    qed
  qed
  then show "unat (tokens rl') \<le> 1000"
    by (simp add: word_le_nat_alt burst_unat)
next
  assume Some: "m ip = Some rl"
  show "\<exists>rl'. snd (check_rate_limit now m ip) ip = Some rl' \<and>
         (if fst (check_rate_limit now m ip)
          then 0 < unat (tokens (refill now rl)) \<and>
               unat (tokens rl') = unat (tokens (refill now rl)) - 1
          else tokens (refill now rl) = 0 \<and> tokens rl' = 0)"
  proof (cases "tokens (refill now rl) = 0")
    case True
    then show ?thesis using Some by (simp add: check_rate_limit_def Let_def)
  next
    case False
    then have pos: "0 < tokens (refill now rl)" by (simp add: word_greater_zero_iff)
    have u: "unat (tokens (refill now rl) - 1) = unat (tokens (refill now rl)) - 1"
      using False by (simp add: unat_minus_one)
    have "0 < unat (tokens (refill now rl))" using False by (simp add: unat_gt_0)
    then show ?thesis using Some pos u
      by (simp add: check_rate_limit_def Let_def)
  qed
qed

theorem check_rate_limit_keeps_invariant_witness:
  "[1 \<mapsto> \<lparr>tokens = 0, last_update = 0\<rparr>] (1::u32) = Some \<lparr>tokens = 0, last_update = 0\<rparr> \<and>
   fst (check_rate_limit 200000 [1 \<mapsto> \<lparr>tokens = 0, last_update = 0\<rparr>] 1) \<and>
   tokens (refill 200000 \<lparr>tokens = 0, last_update = 0\<rparr>) = 2 \<and>
   (\<exists>rl'. snd (check_rate_limit 200000 [1 \<mapsto> \<lparr>tokens = 0, last_update = 0\<rparr>] 1) 1 = Some rl' \<and>
          unat (tokens rl') = 1)"
  using check_rate_limit_keeps_invariant
          [of 200000 "[1 \<mapsto> \<lparr>tokens = 0, last_update = 0\<rparr>]" 1 "\<lparr>tokens = 0, last_update = 0\<rparr>"]
  by (simp add: check_rate_limit_def refill_def rate_def burst_def Let_def)








text \<open>
  The number of accepted calls in a run with non-decreasing timestamps. From an existing
  entry whose last update is not after the run, it is at most the tokens of the entry plus
  what the elapsed time refills, rounded down; from a map that holds the entry or has room
  for it, the first call leaves at most the burst capacity, and a call that creates the
  entry is accepted on top of it. So every window of consecutive calls has at most
  \<open>1001 + (t_last - t_first) * 10000 div 10^9\<close> accepted calls: one more than the burst
  capacity plus the refill.
\<close>

lemma div_add_le_nat: "(a::nat) div c + b div c \<le> (a + b) div c"
proof (cases "c = 0")
  case True
  then show ?thesis by simp
next
  case False
  have "(a div c + b div c) * c \<le> a + b"
    by (simp add: add_mult_distrib add_mono)
  then show ?thesis using False
    by (simp add: less_eq_div_iff_mult_less_eq)
qed

lemma tokens_to_add_le:
  assumes "u \<le> t"
  shows "unat ((t - u) * rate div 1000000000) \<le> (unat t - unat u) * 10000 div 1000000000"
proof -
  have "unat ((t - u) * rate) \<le> unat (t - u) * 10000"
    by (simp add: unat_mult_rate)
  moreover have "unat (t - u) = unat t - unat u"
    using assms by (simp add: unat_sub)
  ultimately have "unat ((t - u) * rate) div 1000000000 \<le> (unat t - unat u) * 10000 div 1000000000"
    by (simp add: div_le_mono)
  then show ?thesis by (simp add: unat_div)
qed

lemma refill_tokens_bound:
  assumes "last_update rl \<le> t"
  shows "unat (tokens (refill t rl)) \<le>
           unat (tokens rl) + (unat t - unat (last_update rl)) * 10000 div 1000000000"
proof -
  let ?add = "(t - last_update rl) * rate div 1000000000"
  have a: "unat ?add \<le> (unat t - unat (last_update rl)) * 10000 div 1000000000"
    using assms by (rule tokens_to_add_le)
  have b: "unat (tokens rl + ?add) \<le> unat (tokens rl) + unat ?add"
    by (simp add: unat_word_ariths)
  show ?thesis
  proof (cases "burst < tokens rl + ?add")
    case True
    then have "unat burst < unat (tokens rl + ?add)" by (simp add: word_less_nat_alt)
    moreover have "tokens (refill t rl) = burst" using True by (simp add: refill_def Let_def)
    ultimately show ?thesis using a b by simp
  next
    case False
    then have "tokens (refill t rl) = tokens rl + ?add" by (simp add: refill_def Let_def)
    then show ?thesis using a b by simp
  qed
qed

lemma successes_Cons: "successes (b # bs) = (if b then 1 else 0) + successes bs"
  by (simp add: successes_def)

lemma successes_append: "successes (xs @ ys) = successes xs + successes ys"
  by (simp add: successes_def)

lemma rate_limit_calls_append:
  "rate_limit_calls m ip (xs @ ys) =
     (fst (rate_limit_calls m ip xs) @ fst (rate_limit_calls (snd (rate_limit_calls m ip xs)) ip ys),
      snd (rate_limit_calls (snd (rate_limit_calls m ip xs)) ip ys))"
  by (induction xs arbitrary: m) (simp_all add: split_beta)

lemma length_rate_limit_calls: "length (fst (rate_limit_calls m ip ts)) = length ts"
  by (induction ts arbitrary: m) (simp_all add: split_beta)

text \<open>One call on an existing entry, in terms of the refilled entry.\<close>

lemma check_rate_limit_Some:
  assumes "m ip = Some rl"
  shows "\<exists>rl'. check_rate_limit t m ip = (0 < tokens (refill t rl), m(ip \<mapsto> rl')) \<and>
           last_update rl' = t \<and> tokens rl' \<le> burst \<and>
           (if 0 < tokens (refill t rl) then 1 else 0) + unat (tokens rl') = unat (tokens (refill t rl))"
proof (cases "tokens (refill t rl) = 0")
  case True
  then show ?thesis using assms
    by (intro exI[of _ "refill t rl"])
       (simp add: check_rate_limit_def Let_def refill_last_update)
next
  case False
  then have pos: "0 < tokens (refill t rl)" by (simp add: word_greater_zero_iff)
  have u: "unat (tokens (refill t rl) - 1) = unat (tokens (refill t rl)) - 1"
    using False by (simp add: unat_minus_one)
  have p: "0 < unat (tokens (refill t rl))" using False by (simp add: unat_gt_0)
  have "unat (tokens (refill t rl)) \<le> unat burst"
    using refill_tokens_le[of t rl] by (simp add: word_le_nat_alt)
  then have le: "tokens (refill t rl) - 1 \<le> burst" using u by (simp add: word_le_nat_alt)
  show ?thesis using assms pos u p le
    by (intro exI[of _ "(refill t rl)\<lparr>tokens := tokens (refill t rl) - 1\<rparr>"])
       (simp add: check_rate_limit_def Let_def refill_last_update)
qed

lemma successes_from_entry:
  "m ip = Some rl \<Longrightarrow> sorted (last_update rl # ts) \<Longrightarrow>
   successes (fst (rate_limit_calls m ip ts)) \<le>
     unat (tokens rl) +
     (unat (last (last_update rl # ts)) - unat (last_update rl)) * 10000 div 1000000000"
proof (induction ts arbitrary: m rl)
  case Nil
  then show ?case by (simp add: successes_def)
next
  case (Cons t ts)
  have ut: "last_update rl \<le> t" using Cons.prems(2) by simp
  from check_rate_limit_Some[of m ip rl t, OF Cons.prems(1)] obtain rl' where
    c: "check_rate_limit t m ip = (0 < tokens (refill t rl), m(ip \<mapsto> rl'))"
    and l: "last_update rl' = t"
    and s: "(if 0 < tokens (refill t rl) then 1 else 0) + unat (tokens rl') = unat (tokens (refill t rl))"
    by blast
  have srt: "sorted (last_update rl' # ts)" using Cons.prems(2) l by simp
  have m': "(m(ip \<mapsto> rl')) ip = Some rl'" by simp
  have ih: "successes (fst (rate_limit_calls (m(ip \<mapsto> rl')) ip ts)) \<le>
     unat (tokens rl') + (unat (last (t # ts)) - unat t) * 10000 div 1000000000"
    using Cons.IH[of "m(ip \<mapsto> rl')" rl', OF m' srt] unfolding l .
  have r: "unat (tokens (refill t rl)) \<le>
           unat (tokens rl) + (unat t - unat (last_update rl)) * 10000 div 1000000000"
    using ut by (rule refill_tokens_bound)
  have "last (t # ts) \<in> set (t # ts)" by (rule last_in_set) simp
  moreover have "\<forall>x \<in> set (t # ts). t \<le> x" using Cons.prems(2) by auto
  ultimately have tl: "t \<le> last (t # ts)" by blast
  have nat_ut: "unat (last_update rl) \<le> unat t" using ut by (simp add: word_le_nat_alt)
  have nat_tl: "unat t \<le> unat (last (t # ts))" using tl by (simp add: word_le_nat_alt)
  have "(unat t - unat (last_update rl)) * 10000 div 1000000000
          + (unat (last (t # ts)) - unat t) * 10000 div 1000000000
        \<le> ((unat t - unat (last_update rl)) * 10000 + (unat (last (t # ts)) - unat t) * 10000)
             div 1000000000"
    by (rule div_add_le_nat)
  also have "(unat t - unat (last_update rl)) * 10000 + (unat (last (t # ts)) - unat t) * 10000
       = (unat (last (t # ts)) - unat (last_update rl)) * 10000"
    using nat_ut nat_tl by (simp add: algebra_simps)
  finally have d: "(unat t - unat (last_update rl)) * 10000 div 1000000000
          + (unat (last (t # ts)) - unat t) * 10000 div 1000000000
        \<le> (unat (last (t # ts)) - unat (last_update rl)) * 10000 div 1000000000" .
  have "successes (fst (rate_limit_calls m ip (t # ts))) =
        (if 0 < tokens (refill t rl) then 1 else 0)
          + successes (fst (rate_limit_calls (m(ip \<mapsto> rl')) ip ts))"
    using c by (simp add: split_beta successes_Cons)
  also have "\<dots> \<le> (if 0 < tokens (refill t rl) then 1 else 0) + unat (tokens rl')
                  + (unat (last (t # ts)) - unat t) * 10000 div 1000000000"
    using ih by simp
  also have "\<dots> = unat (tokens (refill t rl))
                  + (unat (last (t # ts)) - unat t) * 10000 div 1000000000"
    using s by simp
  also have "\<dots> \<le> unat (tokens rl) + (unat t - unat (last_update rl)) * 10000 div 1000000000
                  + (unat (last (t # ts)) - unat t) * 10000 div 1000000000"
    using r by simp
  also have "\<dots> \<le> unat (tokens rl)
                  + (unat (last (t # ts)) - unat (last_update rl)) * 10000 div 1000000000"
    using d by simp
  finally have "successes (fst (rate_limit_calls m ip (t # ts))) \<le> unat (tokens rl)
                  + (unat (last (t # ts)) - unat (last_update rl)) * 10000 div 1000000000" .
  moreover have "last (last_update rl # t # ts) = last (t # ts)" by simp
  ultimately show ?case by (simp only:)
qed

text \<open>
  From a map that holds the entry or has room for it: the first call of the run leaves at
  most the burst capacity.
\<close>

lemma successes_run_bound:
  assumes "sorted (t # ts)" and "m ip \<noteq> None \<or> map_has_room m"
  shows "successes (fst (rate_limit_calls m ip (t # ts))) \<le>
           1001 + (unat (last (t # ts)) - unat t) * 10000 div 1000000000"
proof (cases "m ip")
  case None
  let ?rl = "\<lparr>tokens = burst, last_update = t\<rparr>"
  have "map_has_room m" using None assms(2) by simp
  with None have c: "check_rate_limit t m ip = (True, m(ip \<mapsto> ?rl))"
    by (rule check_rate_limit_new_source)
  have srt: "sorted (last_update ?rl # ts)" using assms(1) by simp
  have m': "(m(ip \<mapsto> ?rl)) ip = Some ?rl" by simp
  have "successes (fst (rate_limit_calls (m(ip \<mapsto> ?rl)) ip ts)) \<le>
     unat (tokens ?rl) + (unat (last (last_update ?rl # ts)) - unat (last_update ?rl)) * 10000 div 1000000000"
    using successes_from_entry[of "m(ip \<mapsto> ?rl)" ip ?rl ts, OF m' srt] .
  then have "successes (fst (rate_limit_calls (m(ip \<mapsto> ?rl)) ip ts)) \<le>
     1000 + (unat (last (t # ts)) - unat t) * 10000 div 1000000000"
    by (simp add: burst_unat del: last.simps fun_upd_apply)
  moreover have "successes (fst (rate_limit_calls m ip (t # ts))) =
        1 + successes (fst (rate_limit_calls (m(ip \<mapsto> ?rl)) ip ts))"
    using c by (simp add: split_beta successes_Cons)
  ultimately show ?thesis by (simp del: last.simps)
next
  case (Some rl)
  from check_rate_limit_Some[of m ip rl t, OF Some] obtain rl' where
    c: "check_rate_limit t m ip = (0 < tokens (refill t rl), m(ip \<mapsto> rl'))"
    and l: "last_update rl' = t"
    and s: "(if 0 < tokens (refill t rl) then 1 else 0) + unat (tokens rl') = unat (tokens (refill t rl))"
    by blast
  have srt: "sorted (last_update rl' # ts)" using assms(1) l by simp
  have m': "(m(ip \<mapsto> rl')) ip = Some rl'" by simp
  have ih: "successes (fst (rate_limit_calls (m(ip \<mapsto> rl')) ip ts)) \<le>
     unat (tokens rl') + (unat (last (t # ts)) - unat t) * 10000 div 1000000000"
    using successes_from_entry[of "m(ip \<mapsto> rl')" ip rl' ts, OF m' srt] unfolding l .
  have "unat (tokens (refill t rl)) \<le> 1000"
    using refill_tokens_le[of t rl] by (simp add: word_le_nat_alt burst_unat)
  then have "(if 0 < tokens (refill t rl) then 1 else 0) + unat (tokens rl') \<le> 1000"
    using s by simp
  moreover have "successes (fst (rate_limit_calls m ip (t # ts))) =
        (if 0 < tokens (refill t rl) then 1 else 0)
          + successes (fst (rate_limit_calls (m(ip \<mapsto> rl')) ip ts))"
    using c by (simp add: split_beta successes_Cons)
  ultimately show ?thesis using ih by (simp del: last.simps)
qed

text \<open>Once the source has an entry it keeps it.\<close>

lemma entry_after_call:
  "m ip \<noteq> None \<or> map_has_room m \<Longrightarrow> snd (check_rate_limit t m ip) ip \<noteq> None"
  by (cases "m ip") (auto simp add: check_rate_limit_def bpf_map_update_elem_def Let_def)

lemma entry_or_room_after_calls:
  "m ip \<noteq> None \<or> map_has_room m \<Longrightarrow>
   snd (rate_limit_calls m ip ts) ip \<noteq> None \<or> map_has_room (snd (rate_limit_calls m ip ts))"
proof (induction ts arbitrary: m)
  case Nil
  then show ?case by simp
next
  case (Cons t ts)
  have "snd (check_rate_limit t m ip) ip \<noteq> None" using Cons.prems by (rule entry_after_call)
  then have "snd (rate_limit_calls (snd (check_rate_limit t m ip)) ip ts) ip \<noteq> None \<or>
             map_has_room (snd (rate_limit_calls (snd (check_rate_limit t m ip)) ip ts))"
    by (intro Cons.IH) simp
  then show ?case by (simp add: split_beta)
qed

text \<open>Any window of consecutive calls inside a longer run.\<close>

lemma successes_window_bound:
  assumes "sorted (t # win)" and "m ip \<noteq> None \<or> map_has_room m"
  shows "successes (take (length (t # win)) (drop (length before)
           (fst (rate_limit_calls m ip (before @ (t # win) @ after)))))
         \<le> 1001 + (unat (last (t # win)) - unat t) * 10000 div 1000000000"
proof -
  let ?m1 = "snd (rate_limit_calls m ip before)"
  have "fst (rate_limit_calls m ip (before @ (t # win) @ after)) =
        fst (rate_limit_calls m ip before) @ fst (rate_limit_calls ?m1 ip (t # win)) @
        fst (rate_limit_calls (snd (rate_limit_calls ?m1 ip (t # win))) ip after)"
    by (simp only: rate_limit_calls_append fst_conv snd_conv)
  then have "take (length (t # win)) (drop (length before)
           (fst (rate_limit_calls m ip (before @ (t # win) @ after)))) =
         fst (rate_limit_calls ?m1 ip (t # win))"
    by (simp only: length_rate_limit_calls[symmetric, of before m ip]
          length_rate_limit_calls[symmetric, of "t # win" ?m1 ip] append_eq_conv_conj
          drop_append take_append) simp
  moreover have "?m1 ip \<noteq> None \<or> map_has_room ?m1"
    using assms(2) by (rule entry_or_room_after_calls)
  ultimately show ?thesis
    using successes_run_bound[OF assms(1), of ?m1 ip] by (simp del: last.simps)
qed

text \<open>
  Claim C1, evaluated where it fails: 1001 calls from the fresh source 10.0.0.5, all at the
  same time 0, lie in a window of length 0 and all return true, one more than
  \<open>burst + rate * 0\<close>.
\<close>

theorem rate_limit_window_exceeds_burst:
  "fst (rate_limit_calls Map.empty 167772165 (replicate 1001 0)) = replicate 1001 True \<and>
   successes (fst (rate_limit_calls Map.empty 167772165 (replicate 1001 0))) = 1001 \<and>
   successes (fst (rate_limit_calls Map.empty 167772165 (replicate 1001 0)))
     > unat burst + unat rate * 0"
proof -
  have "replicate 1001 (0::u64) = 0 # replicate 1000 0"
    by (simp add: replicate_Suc[symmetric] del: replicate_Suc)
  moreover have "fst (rate_limit_calls Map.empty 167772165 (0 # replicate 1000 0)) =
          True # replicate (min 1000 (length (replicate 1000 (0::u64)))) True @
            replicate (length (replicate 1000 (0::u64)) - 1000) False"
    by (rule fresh_source_calls) (simp_all add: back_to_back_replicate empty_map_has_room)
  moreover have "(True # replicate 1000 True) = replicate 1001 True"
    by (simp add: replicate_Suc[symmetric] del: replicate_Suc)
  ultimately show ?thesis
    by (simp add: successes_def burst_unat)
qed

section \<open>Properties of the pacing delay\<close>

lemma ns_per_byte_zero: "ns_per_byte = 0"
  by (simp add: ns_per_byte_def target_bps_def)

lemma tstamp_set_tos: "tstamp (set_tos skb ip v) = tstamp skb"
  by (simp add: set_tos_def)

lemma tstamp_tc_mark_dscp: "tstamp (tc_mark_dscp bo skb ip) = tstamp skb"
  by (simp add: tc_mark_dscp_def Let_def tstamp_set_tos)

text \<open>
  Claim C3, evaluated where it fails. \<^verbatim>\<open>ns_per_byte\<close> is \<open>8000000000 div 10000000000\<close>,
  which is 0 in integer arithmetic, so the delay of a packet of 1500 bytes, and of every
  other length, is 0 and not the 1200 ns of the formula; \<^verbatim>\<open>tc_vpn_egress\<close> then never
  writes \<^verbatim>\<open>skb->tstamp\<close>.
\<close>

theorem pacing_delay_always_zero:
  "ns_per_byte = 0 \<and> calculate_pacing_delay 1500 = 0 \<and> calculate_pacing_delay pkt_len = 0 \<and>
   tstamp (snd (tc_vpn_egress bo now skb)) = tstamp skb"
  by (simp add: calculate_pacing_delay_def ns_per_byte_zero tc_vpn_egress_def Let_def
        tstamp_tc_mark_dscp)

section \<open>Properties of the message limits\<close>

text \<open>
  Claim C4, evaluated where it fails: modulo \<open>2 ^ 64\<close> the shift \<^verbatim>\<open>1ULL << 64\<close> is 0, so
  \<^verbatim>\<open>REJECT_AFTER_MESSAGES\<close> is not greater than \<^verbatim>\<open>REKEY_AFTER_MESSAGES\<close>, which is
  \<open>2 ^ 60\<close>.
\<close>

theorem reject_after_messages_wraps_to_zero:
  "REJECT_AFTER_MESSAGES = 0 \<and> REKEY_AFTER_MESSAGES = 2 ^ 60 \<and>
   \<not> REKEY_AFTER_MESSAGES < REJECT_AFTER_MESSAGES"
  by (simp add: REJECT_AFTER_MESSAGES_def REKEY_AFTER_MESSAGES_def)

section \<open>Properties of the kill switch\<close>

text \<open>
  Claim C6, evaluated where it fails. The first rule is created and installed, the
  installation of the second rule fails with \<^verbatim>\<open>-ENOMEM\<close>: the call returns that error,
  the rule that accepts traffic through the tunnel stays installed alone, and
  \<^verbatim>\<open>kill_switch_enabled\<close> is set.
\<close>

theorem enable_kill_switch_second_rule_fails:
  "undertheradar_enable_kill_switch
     \<lparr>create_first = True, add_first = 0, add_second = - 12\<rparr>
     \<lparr>dev_name = ''utr0'', kill_switch_enabled = False\<rparr> [] =
   (- 12, \<lparr>dev_name = ''utr0'', kill_switch_enabled = True\<rparr>, [''-A OUTPUT -o utr0 -j ACCEPT''])"
  by (simp add: undertheradar_enable_kill_switch_def iptables_add_rule_def)

section \<open>Properties of the handshake retry\<close>

text \<open>
  The handler never writes \<^verbatim>\<open>handshake_failures\<close>, so a peer with at most 3 recorded
  failures is never moved to an alternative endpoint, however often the timer expires.
  The retry interval doubles up to the cap.
\<close>

lemma check_handshake_quiet_peer:
  "handshake_failures peer \<le> 3 \<Longrightarrow>
   undertheradar_peer_check_handshake max_retry j peer =
     (peer\<lparr>handshake_retry_interval := min (handshake_retry_interval peer * 2) max_retry\<rparr>,
      [Send_handshake_initiation,
       Mod_timer (j + min (handshake_retry_interval peer * 2) max_retry)])"
  by (simp add: undertheradar_peer_check_handshake_def Let_def)

lemma check_handshake_failures_unchanged:
  "handshake_failures (fst (undertheradar_peer_check_handshake max_retry j peer)) =
   handshake_failures peer"
  by (simp add: undertheradar_peer_check_handshake_def Let_def)

lemma retry_expiries_failures_unchanged:
  "handshake_failures (fst (retry_expiries max_retry js peer)) = handshake_failures peer"
  by (induction js arbitrary: peer)
     (simp_all add: split_beta check_handshake_failures_unchanged)

lemma check_handshake_no_failover:
  "handshake_failures peer \<le> 3 \<Longrightarrow>
   Try_alternative_endpoint \<notin> set (snd (undertheradar_peer_check_handshake max_retry j peer))"
  by (simp add: undertheradar_peer_check_handshake_def Let_def)

lemma retry_expiries_no_failover:
  "handshake_failures peer \<le> 3 \<Longrightarrow>
   Try_alternative_endpoint \<notin> set (snd (retry_expiries max_retry js peer))"
  by (induction js arbitrary: peer)
     (simp_all add: split_beta check_handshake_failures_unchanged check_handshake_no_failover)

lemma double_capped_nat:
  "min (min (a * 2) c * 2 ^ n) c = min (a * 2 * 2 ^ n) (c::nat)"
proof (cases "a * 2 \<le> c")
  case True
  then show ?thesis by (simp add: min_def)
next
  case False
  then have a: "min (a * 2) c = c" by simp
  have b1: "c \<le> c * 2 ^ n" by simp
  have "c \<le> a * 2" using False by simp
  also have "\<dots> \<le> a * 2 * 2 ^ n" by simp
  finally have b2: "c \<le> a * 2 * 2 ^ n" .
  show ?thesis unfolding a using b1 b2 by (simp only: min_absorb2)
qed

lemma unat_double_capped:
  fixes i max_retry :: u64
  assumes "i \<le> max_retry" and "unat max_retry * 2 < 2 ^ 64"
  shows "unat (min (i * 2) max_retry) = min (unat i * 2) (unat max_retry)"
proof -
  have "unat i \<le> unat max_retry" using assms(1) by (simp add: word_le_nat_alt)
  then have "unat i * 2 < 2 ^ 64" using assms(2) by simp
  then have d: "unat (i * 2) = unat i * 2" by (simp add: unat_word_ariths)
  show ?thesis
  proof (cases "i * 2 \<le> max_retry")
    case True
    then have "unat i * 2 \<le> unat max_retry" using d by (simp add: word_le_nat_alt)
    then show ?thesis using True d by (simp add: min_def)
  next
    case False
    then have "\<not> unat i * 2 \<le> unat max_retry" using d by (simp add: word_le_nat_alt)
    then show ?thesis using False by (simp add: min_def)
  qed
qed

text \<open>
  While twice the cap fits into 64 bits, \<open>k\<close> expiries from an interval at or below the
  cap leave the interval \<open>min (base * 2 ^ k) cap\<close>.
\<close>

lemma retry_expiries_interval:
  "handshake_retry_interval peer \<le> max_retry \<Longrightarrow> unat max_retry * 2 < 2 ^ 64 \<Longrightarrow>
   unat (handshake_retry_interval (fst (retry_expiries max_retry js peer))) =
     min (unat (handshake_retry_interval peer) * 2 ^ length js) (unat max_retry)"
proof (induction js arbitrary: peer)
  case Nil
  then show ?case by (simp add: word_le_nat_alt)
next
  case (Cons j js)
  let ?p = "fst (undertheradar_peer_check_handshake max_retry j peer)"
  have i: "handshake_retry_interval ?p = min (handshake_retry_interval peer * 2) max_retry"
    by (simp add: undertheradar_peer_check_handshake_def Let_def)
  then have le: "handshake_retry_interval ?p \<le> max_retry" by simp
  have u: "unat (handshake_retry_interval ?p) =
             min (unat (handshake_retry_interval peer) * 2) (unat max_retry)"
    unfolding i using Cons.prems by (rule unat_double_capped)
  have "unat (handshake_retry_interval (fst (retry_expiries max_retry js ?p))) =
     min (unat (handshake_retry_interval ?p) * 2 ^ length js) (unat max_retry)"
    using le Cons.prems(2) by (rule Cons.IH)
  also have "\<dots> = min (unat (handshake_retry_interval peer) * 2 * 2 ^ length js) (unat max_retry)"
    unfolding u by (rule double_capped_nat)
  finally show ?case by (simp add: split_beta mult.assoc)
qed

text \<open>
  Claim C5, evaluated where it fails. A peer with no failures and a retry interval of 5,
  under a cap of 120, sees the retry timer expire five times in a row. The interval
  doubles to 10, 20, 40, 80 and is capped at 120, and each expiry sends an initiation and
  rearms the timer; but the failure counter is still 0 after the five expiries, and no
  expiry, the fifth included, tries an alternative endpoint.
\<close>

theorem retry_expiries_never_count_failures:
  "retry_expiries 120 [100, 110, 130, 170, 250]
     \<lparr>peer_id = 1, tx_bytes = 0, last_handshake_rtt = 0,
      handshake_failures = 0, handshake_retry_interval = 5\<rparr> =
     (\<lparr>peer_id = 1, tx_bytes = 0, last_handshake_rtt = 0,
       handshake_failures = 0, handshake_retry_interval = 120\<rparr>,
      [Send_handshake_initiation, Mod_timer 110,
       Send_handshake_initiation, Mod_timer 130,
       Send_handshake_initiation, Mod_timer 170,
       Send_handshake_initiation, Mod_timer 250,
       Send_handshake_initiation, Mod_timer 370]) \<and>
   handshake_failures (fst (retry_expiries 120 [100, 110, 130, 170, 250]
     \<lparr>peer_id = 1, tx_bytes = 0, last_handshake_rtt = 0,
      handshake_failures = 0, handshake_retry_interval = 5\<rparr>)) = 0 \<and>
   Try_alternative_endpoint \<notin> set (snd (retry_expiries 120 [100, 110, 130, 170, 250]
     \<lparr>peer_id = 1, tx_bytes = 0, last_handshake_rtt = 0,
      handshake_failures = 0, handshake_retry_interval = 5\<rparr>))"
  by (simp add: check_handshake_quiet_peer)

section \<open>Properties of the ingress filter\<close>

lemmas hdr_defs = load8_def load16_def load32_def ethhdr_h_proto_def iphdr_ihl_def iphdr_tos_def
  iphdr_tot_len_def iphdr_frag_off_def iphdr_ttl_def iphdr_protocol_def iphdr_saddr_def
  iphdr_daddr_def udphdr_source_def udphdr_dest_def tcphdr_syn_def tcphdr_ack_def
  wireguard_header_type_def bpf_htons_def bpf_ntohs_def bswap16_def
  sizeof_ethhdr_def sizeof_iphdr_def sizeof_udphdr_def sizeof_tcphdr_def
  sizeof_wireguard_header_def ETH_P_IP_def IPPROTO_TCP_def IPPROTO_UDP_def IP_MF_def IP_OFFSET_def
  WIREGUARD_PORT_def WIREGUARD_MESSAGE_DATA_def

lemma is_ddos_pattern_overlong:
  assumes "ip + unat (bpf_ntohs bo (iphdr_tot_len bo pkt ip)) + 64 < length pkt"
  shows "is_ddos_pattern bo pkt ip"
proof -
  have "int ip + int (unat (bpf_ntohs bo (iphdr_tot_len bo pkt ip))) < int (length pkt) - 64"
    using assms by linarith
  then show ?thesis
    by (simp add: is_ddos_pattern_def Let_def)
qed

text \<open>
  For a packet that reaches the DDoS check without fragment bits, with a time to live of at
  least 5 and a protocol other than TCP, the length test alone decides: the packet is
  dropped exactly when more than 64 captured bytes follow the declared end.
\<close>

lemma xdp_verdict_by_length_test:
  assumes "fst (xdp_before_ddos_check env s pkt) = None"
    and "iphdr_frag_off (host_order env) pkt sizeof_ethhdr
           AND bpf_htons (host_order env) (IP_MF OR IP_OFFSET) = 0"
    and "5 \<le> iphdr_ttl pkt sizeof_ethhdr"
    and "iphdr_protocol pkt sizeof_ethhdr \<noteq> IPPROTO_TCP"
  shows "fst (xdp_vpn_filter env s pkt) =
           (if sizeof_ethhdr
                 + unat (bpf_ntohs (host_order env) (iphdr_tot_len (host_order env) pkt sizeof_ethhdr))
                 + 64 < length pkt
            then XDP_DROP else XDP_PASS)"
proof -
  obtain s' where b: "xdp_before_ddos_check env s pkt = (None, s')"
    using assms(1) by (cases "xdp_before_ddos_check env s pkt") simp
  let ?n = "unat (bpf_ntohs (host_order env) (iphdr_tot_len (host_order env) pkt sizeof_ethhdr))"
  have "(int sizeof_ethhdr + int ?n < int (length pkt) - 64) = (sizeof_ethhdr + ?n + 64 < length pkt)"
    by linarith
  moreover have "\<not> iphdr_ttl pkt sizeof_ethhdr < 5" using assms(3) by (simp add: not_less)
  ultimately have "is_ddos_pattern (host_order env) pkt sizeof_ethhdr = (sizeof_ethhdr + ?n + 64 < length pkt)"
    using assms(2,4) by (simp add: is_ddos_pattern_def Let_def)
  then show ?thesis using b by (simp add: xdp_vpn_filter_def)
qed

text \<open>
  Claim C2 as stated fails. The frame of 42 bytes declares a total length of 1500, so its
  captured length is far below the declared one; it reaches the DDoS check (UDP to port
  53, a little-endian target, empty maps) and the verdict is \<^verbatim>\<open>XDP_PASS\<close>.
\<close>

theorem xdp_passes_truncated_capture:
  "length (udp_headers 5 220 0 53) = 42 \<and>
   unat (bpf_ntohs Little_endian (iphdr_tot_len Little_endian (udp_headers 5 220 0 53) sizeof_ethhdr)) = 1500 \<and>
   fst (xdp_before_ddos_check le_env no_maps (udp_headers 5 220 0 53)) = None \<and>
   fst (xdp_vpn_filter le_env no_maps (udp_headers 5 220 0 53)) = XDP_PASS"
  by (simp add: xdp_vpn_filter_def xdp_before_ddos_check_def xdp_udp_block_def is_ddos_pattern_def
       count_rx_def count_dropped_def Let_def udp_headers_def hdr_defs no_maps_def le_env_def)

text \<open>
  Claim C2 as amended. The length test of \<^verbatim>\<open>is_ddos_pattern\<close> looks the other way: for
  every packet that reaches the DDoS check, if the captured bytes go on for more than 64
  bytes beyond the end that the declared total length gives, the verdict is
  \<^verbatim>\<open>XDP_DROP\<close>.
\<close>

theorem xdp_drops_capture_beyond_declared_length:
  assumes "fst (xdp_before_ddos_check env s pkt) = None"
    and "sizeof_ethhdr
           + unat (bpf_ntohs (host_order env) (iphdr_tot_len (host_order env) pkt sizeof_ethhdr))
           + 64 < length pkt"
  shows "fst (xdp_vpn_filter env s pkt) = XDP_DROP"
proof -
  obtain s' where b: "xdp_before_ddos_check env s pkt = (None, s')"
    using assms(1) by (cases "xdp_before_ddos_check env s pkt") simp
  have "is_ddos_pattern (host_order env) pkt sizeof_ethhdr"
    using assms(2) by (rule is_ddos_pattern_overlong)
  then show ?thesis using b by (simp add: xdp_vpn_filter_def)
qed

lemma padded_packet_reaches_check:
  "fst (xdp_before_ddos_check le_env no_maps padded_packet) = None"
  by (simp add: xdp_before_ddos_check_def xdp_udp_block_def
       count_rx_def Let_def udp_headers_def hdr_defs no_maps_def le_env_def padded_packet_def)

lemma padded_packet_lengths:
  "sizeof_ethhdr
     + unat (bpf_ntohs (host_order le_env) (iphdr_tot_len (host_order le_env) padded_packet sizeof_ethhdr))
     + 64 < length padded_packet"
  by (simp add: udp_headers_def hdr_defs le_env_def padded_packet_def)

theorem xdp_drops_capture_beyond_declared_length_witness:
  "fst (xdp_before_ddos_check le_env no_maps padded_packet) = None \<and>
   sizeof_ethhdr
     + unat (bpf_ntohs (host_order le_env) (iphdr_tot_len (host_order le_env) padded_packet sizeof_ethhdr))
     + 64 < length padded_packet \<and>
   fst (xdp_vpn_filter le_env no_maps padded_packet) = XDP_DROP"
  using xdp_drops_capture_beyond_declared_length
          [OF padded_packet_reaches_check padded_packet_lengths]
        padded_packet_reaches_check padded_packet_lengths
  by blast

section \<open>Properties of the egress marking\<close>

text \<open>
  What the marking does hold: a byte swap is its own inverse, so the equality tests find
  their ports on either byte order, and the swapped values of the ports 27000 to 27100 lie
  between the swapped bounds.
\<close>

lemma unat_bswap16: "unat (bswap16 x) = (unat x mod 256) * 256 + unat x div 256"
proof -
  have d: "push_bit 8 x OR drop_bit 8 x = push_bit 8 x + drop_bit 8 x"
    by (rule disjunctive_add[symmetric]) (auto simp: bit_simps dest: bit_imp_le_length)
  have "unat x * 256 mod (256 * 256) = (unat x mod 256) * 256" by (rule mod_mult_mult2)
  then have a: "unat (push_bit 8 x) = (unat x mod 256) * 256"
    by (simp add: unat_word_ariths push_bit_eq_mult)
  have b: "unat (drop_bit 8 x) = unat x div 256"
    by (simp add: drop_bit_eq_div unat_div)
  have "unat x < 65536" using unsigned_less[of x, where 'a=nat] by simp
  then have "unat x div 256 < 256" by simp
  then have "unat (push_bit 8 x + drop_bit 8 x) = (unat x mod 256) * 256 + unat x div 256"
    using a b by (simp add: unat_word_ariths)
  then show ?thesis by (simp add: bswap16_def d)
qed

lemma bswap16_bswap16: "bswap16 (bswap16 x) = x"
proof -
  have l: "unat x < 65536" using unsigned_less[of x, where 'a=nat] by simp
  then have "unat x div 256 < 256" by simp
  then have "unat (bswap16 (bswap16 x)) = unat x"
    by (simp add: unat_bswap16)
  then show ?thesis by (simp add: word_eq_iff_unsigned[where 'a=nat])
qed

lemma eq_bpf_htons_iff: "d = bpf_htons bo c \<longleftrightarrow> bpf_ntohs bo d = c"
  by (cases bo) (auto simp: bpf_htons_def bpf_ntohs_def bswap16_bswap16)

lemma bswap16_gaming_range:
  assumes "27000 \<le> bswap16 d" "bswap16 d \<le> 27100"
  shows "bswap16 27000 \<le> d \<and> d \<le> bswap16 27100"
proof -
  let ?p = "unat (bswap16 d)"
  have r: "27000 \<le> ?p" "?p \<le> 27100"
    using assms by (simp_all add: word_le_nat_alt)
  have "unat d = unat (bswap16 (bswap16 d))" by (simp add: bswap16_bswap16)
  also have "\<dots> = (?p mod 256) * 256 + ?p div 256" by (rule unat_bswap16)
  finally have u: "unat d = (?p mod 256) * 256 + ?p div 256" .
  have dv: "?p div 256 = 105" using r by simp
  have "?p mod 256 = ?p - ?p div 256 * 256" by (simp add: minus_div_mult_eq_mod)
  then have md: "?p mod 256 = ?p - 26880" using dv by simp
  have md': "120 \<le> ?p mod 256 \<and> ?p mod 256 \<le> 220" using md r by linarith
  have "30825 \<le> unat d \<and> unat d \<le> 56425" using u dv md' by linarith
  moreover have "bswap16 27000 = 30825" "bswap16 27100 = 56425"
    by (simp_all add: bswap16_def)
  ultimately show ?thesis by (simp add: word_le_nat_alt)
qed

lemma bswap16_values:
  "bswap16 5060 = 50195" "bswap16 5061 = 50451" "bswap16 51820 = 27850"
  "bswap16 27000 = 30825" "bswap16 27100 = 56425"
  by (simp_all add: bswap16_def)

text \<open>
  The ports of the table are marked as the table says, on either byte order. \<open>port\<close> is
  the destination port in host order.
\<close>

lemma tc_mark_dscp_table_ports:
  assumes "ip + unat (iphdr_ihl (data skb) ip) * 4 + sizeof_udphdr \<le> length (data skb)"
    and "port = bpf_ntohs bo (udphdr_dest bo (data skb) (ip + unat (iphdr_ihl (data skb) ip) * 4))"
  shows "port = 5060 \<or> port = 5061 \<Longrightarrow> tc_mark_dscp bo skb ip = set_tos skb ip 0xb8"
    and "27000 \<le> port \<and> port \<le> 27100 \<Longrightarrow> tc_mark_dscp bo skb ip = set_tos skb ip 0x88"
    and "port = 51820 \<Longrightarrow> tc_mark_dscp bo skb ip = set_tos skb ip 0x68"
proof -
  let ?d = "udphdr_dest bo (data skb) (ip + unat (iphdr_ihl (data skb) ip) * 4)"
  have e: "\<And>c. ?d = bpf_htons bo c \<longleftrightarrow> port = c"
    using assms(2) by (simp add: eq_bpf_htons_iff)
  show "port = 5060 \<or> port = 5061 \<Longrightarrow> tc_mark_dscp bo skb ip = set_tos skb ip 0xb8"
    using assms(1) e by (auto simp add: tc_mark_dscp_def Let_def)
  show "27000 \<le> port \<and> port \<le> 27100 \<Longrightarrow> tc_mark_dscp bo skb ip = set_tos skb ip 0x88"
  proof -
    assume r: "27000 \<le> port \<and> port \<le> 27100"
    then have n: "port \<noteq> 5060" "port \<noteq> 5061" by auto
    have "bpf_htons bo 27000 \<le> ?d \<and> ?d \<le> bpf_htons bo 27100"
    proof (cases bo)
      case Little_endian
      then show ?thesis using r assms(2) bswap16_gaming_range[of ?d]
        by (simp add: bpf_htons_def bpf_ntohs_def)
    next
      case Big_endian
      then show ?thesis using r assms(2) by (simp add: bpf_htons_def bpf_ntohs_def)
    qed
    then show ?thesis using assms(1) e n by (simp add: tc_mark_dscp_def Let_def)
  qed
  show "port = 51820 \<Longrightarrow> tc_mark_dscp bo skb ip = set_tos skb ip 0x68"
  proof -
    assume p: "port = 51820"
    then have n: "port \<noteq> 5060" "port \<noteq> 5061" by auto
    have w: "?d = bpf_htons bo WIREGUARD_PORT" using e p by (simp add: WIREGUARD_PORT_def)
    have "\<not> (bpf_htons bo 27000 \<le> ?d \<and> ?d \<le> bpf_htons bo 27100)"
      unfolding w by (cases bo) (simp_all add: bpf_htons_def bswap16_values WIREGUARD_PORT_def)
    then show ?thesis using assms(1) e n w by (auto simp add: tc_mark_dscp_def Let_def)
  qed
qed

text \<open>On a big-endian target every other port is left alone.\<close>

lemma tc_mark_dscp_big_endian_other_ports:
  assumes "port = udphdr_dest Big_endian (data skb) (ip + unat (iphdr_ihl (data skb) ip) * 4)"
    and "port \<noteq> 5060" "port \<noteq> 5061" "\<not> (27000 \<le> port \<and> port \<le> 27100)" "port \<noteq> 51820"
  shows "tc_mark_dscp Big_endian skb ip = skb"
  using assms by (auto simp add: tc_mark_dscp_def Let_def bpf_htons_def WIREGUARD_PORT_def)

text \<open>
  On a little-endian target the range test holds exactly for the ports whose swapped value
  lies between 0x7869 and 0xDC69.
\<close>

lemma tc_mark_dscp_little_endian_range:
  assumes "ip + unat (iphdr_ihl (data skb) ip) * 4 + sizeof_udphdr \<le> length (data skb)"
    and "d = udphdr_dest Little_endian (data skb) (ip + unat (iphdr_ihl (data skb) ip) * 4)"
    and "d \<noteq> 50195" "d \<noteq> 50451" "30825 \<le> d" "d \<le> 56425"
  shows "tc_mark_dscp Little_endian skb ip = set_tos skb ip 0x88"
  using assms by (simp add: tc_mark_dscp_def Let_def bpf_htons_def bswap16_values)

text \<open>
  Claim C7, evaluated where it fails. On a little-endian target the two range tests compare
  byte-swapped values. A UDP packet to port 121 (bytes 0x00 0x79, read as 0x7900) lies
  between \<^verbatim>\<open>bpf_htons(27000)\<close> = 0x7869 and \<^verbatim>\<open>bpf_htons(27100)\<close> = 0xDC69, and its
  type-of-service byte, 0 before the call, is 0x88 after it.
\<close>

theorem egress_marks_port_121:
  "bpf_ntohs Little_endian (udphdr_dest Little_endian (udp_headers 0 28 0 121) 34) = 121 \<and>
   iphdr_tos (udp_headers 0 28 0 121) sizeof_ethhdr = 0 \<and>
   iphdr_tos (data (snd (tc_vpn_egress Little_endian 0
      \<lparr>data = udp_headers 0 28 0 121, len = 42, tstamp = 0\<rparr>))) sizeof_ethhdr = 0x88"
  by (simp add: tc_vpn_egress_def tc_mark_dscp_def set_tos_def Let_def udp_headers_def hdr_defs
        calculate_pacing_delay_def ns_per_byte_def target_bps_def)

section \<open>Properties of the routing lookup\<close>

lemma U64_MAX_value: "U64_MAX = 18446744073709551615"
  by (simp add: U64_MAX_def)

lemma routing_loop_unchanged:
  "\<forall>q \<in> set peers. matches q \<longrightarrow> \<not> peer_load q < lowest \<Longrightarrow>
   routing_loop matches peers (lowest, best) = (lowest, best)"
  by (induction peers) (simp_all add: Let_def)

lemma routing_loop_picks:
  "\<exists>q \<in> set peers. matches q \<and> peer_load q < lowest \<Longrightarrow>
   \<exists>pre p post. peers = pre @ p # post \<and>
      routing_loop matches peers (lowest, best) = (peer_load p, Some p) \<and>
      matches p \<and> peer_load p < lowest \<and>
      (\<forall>q \<in> set pre. matches q \<longrightarrow> peer_load p < peer_load q) \<and>
      (\<forall>q \<in> set post. matches q \<longrightarrow> peer_load p \<le> peer_load q)"
proof (induction peers arbitrary: lowest best)
  case Nil
  then show ?case by simp
next
  case (Cons a peers)
  show ?case
  proof (cases "matches a \<and> peer_load a < lowest")
    case True
    then have step: "routing_loop matches (a # peers) (lowest, best) =
                     routing_loop matches peers (peer_load a, Some a)"
      by (simp add: Let_def)
    show ?thesis
    proof (cases "\<exists>q \<in> set peers. matches q \<and> peer_load q < peer_load a")
      case False
      then have "routing_loop matches peers (peer_load a, Some a) = (peer_load a, Some a)"
        by (intro routing_loop_unchanged) blast
      moreover have "\<forall>q \<in> set peers. matches q \<longrightarrow> peer_load a \<le> peer_load q"
        using False by (auto simp: not_less)
      ultimately have "a # peers = [] @ a # peers \<and>
          routing_loop matches (a # peers) (lowest, best) = (peer_load a, Some a) \<and>
          matches a \<and> peer_load a < lowest \<and>
          (\<forall>q \<in> set []. matches q \<longrightarrow> peer_load a < peer_load q) \<and>
          (\<forall>q \<in> set peers. matches q \<longrightarrow> peer_load a \<le> peer_load q)"
        using True step by simp
      then show ?thesis by blast
    next
      case inner: True
      from Cons.IH[OF inner, of "Some a"] obtain pre p post where
        h: "peers = pre @ p # post"
           "routing_loop matches peers (peer_load a, Some a) = (peer_load p, Some p)"
           "matches p" "peer_load p < peer_load a"
           "\<forall>q \<in> set pre. matches q \<longrightarrow> peer_load p < peer_load q"
           "\<forall>q \<in> set post. matches q \<longrightarrow> peer_load p \<le> peer_load q"
        by blast
      have "peer_load p < lowest" using h(4) True by (blast intro: less_trans)
      then have "a # peers = (a # pre) @ p # post \<and>
          routing_loop matches (a # peers) (lowest, best) = (peer_load p, Some p) \<and>
          matches p \<and> peer_load p < lowest \<and>
          (\<forall>q \<in> set (a # pre). matches q \<longrightarrow> peer_load p < peer_load q) \<and>
          (\<forall>q \<in> set post. matches q \<longrightarrow> peer_load p \<le> peer_load q)"
        using h step by simp
      then show ?thesis by blast
    qed
  next
    case False
    then have step: "routing_loop matches (a # peers) (lowest, best) =
                     routing_loop matches peers (lowest, best)"
      by (auto simp add: Let_def)
    have rest: "\<exists>q \<in> set peers. matches q \<and> peer_load q < lowest"
      using Cons.prems False by auto
    from Cons.IH[OF rest, of best] obtain pre p post where
      h: "peers = pre @ p # post"
         "routing_loop matches peers (lowest, best) = (peer_load p, Some p)"
         "matches p" "peer_load p < lowest"
         "\<forall>q \<in> set pre. matches q \<longrightarrow> peer_load p < peer_load q"
         "\<forall>q \<in> set post. matches q \<longrightarrow> peer_load p \<le> peer_load q"
      by blast
    have "matches a \<longrightarrow> peer_load p < peer_load a"
      using False h(4) by (auto simp: not_less intro: less_le_trans)
    then have "a # peers = (a # pre) @ p # post \<and>
        routing_loop matches (a # peers) (lowest, best) = (peer_load p, Some p) \<and>
        matches p \<and> peer_load p < lowest \<and>
        (\<forall>q \<in> set (a # pre). matches q \<longrightarrow> peer_load p < peer_load q) \<and>
        (\<forall>q \<in> set post. matches q \<longrightarrow> peer_load p \<le> peer_load q)"
      using h step by simp
    then show ?thesis by blast
  qed
qed

text \<open>
  Claim C8 as stated fails on the tie-break. Two matching peers have the same load; the
  one with the higher id stands first in the list and is the one returned.
\<close>

theorem routing_lookup_tie_ignores_peer_id:
  "every_peer (idle_peer 2) \<and> every_peer (idle_peer 1) \<and>
   peer_load (idle_peer 2) = peer_load (idle_peer 1) \<and>
   peer_id (idle_peer 1) < peer_id (idle_peer 2) \<and>
   undertheradar_routing_lookup every_peer [idle_peer 2, idle_peer 1] = Some (idle_peer 2) \<and>
   undertheradar_routing_lookup every_peer [idle_peer 2, idle_peer 1] \<noteq> Some (idle_peer 1)"
  by (simp add: undertheradar_routing_lookup_def every_peer_def idle_peer_def peer_load_def
        U64_MAX_value Let_def)

text \<open>
  Claim C8 as amended. The load of a peer is \<open>tx_bytes + last_handshake_rtt * 1000\<close> in
  64-bit arithmetic. When some matching peer has a load below \<^verbatim>\<open>U64_MAX\<close>, the lookup
  returns a matching peer of minimal load among the matching peers, and among those of
  minimal load the first in the order of the peer list: every matching peer before it has
  a strictly greater load, every matching peer after it a load at least as great. In
  particular, of two matching peers with loads \<open>L1 < L2\<close> the one with \<open>L1\<close> is returned,
  in either order.
\<close>

theorem routing_lookup_first_least_loaded:
  "((\<exists>q \<in> set peers. matches q \<and> peer_load q < U64_MAX) \<longrightarrow>
     (\<exists>pre p post. peers = pre @ p # post \<and>
        undertheradar_routing_lookup matches peers = Some p \<and> matches p \<and>
        (\<forall>q \<in> set pre. matches q \<longrightarrow> peer_load p < peer_load q) \<and>
        (\<forall>q \<in> set post. matches q \<longrightarrow> peer_load p \<le> peer_load q))) \<and>
   (matches p1 \<and> matches p2 \<and> peer_load p1 < peer_load p2 \<longrightarrow>
      undertheradar_routing_lookup matches [p1, p2] = Some p1 \<and>
      undertheradar_routing_lookup matches [p2, p1] = Some p1)"
proof (intro conjI impI)
  assume "\<exists>q \<in> set peers. matches q \<and> peer_load q < U64_MAX"
  from routing_loop_picks[OF this, of None] obtain pre p post where
    h: "peers = pre @ p # post"
       "routing_loop matches peers (U64_MAX, None) = (peer_load p, Some p)"
       "matches p"
       "\<forall>q \<in> set pre. matches q \<longrightarrow> peer_load p < peer_load q"
       "\<forall>q \<in> set post. matches q \<longrightarrow> peer_load p \<le> peer_load q"
    by blast
  have "undertheradar_routing_lookup matches peers = Some p"
    using h(2) by (simp add: undertheradar_routing_lookup_def)
  then show "\<exists>pre p post. peers = pre @ p # post \<and>
        undertheradar_routing_lookup matches peers = Some p \<and> matches p \<and>
        (\<forall>q \<in> set pre. matches q \<longrightarrow> peer_load p < peer_load q) \<and>
        (\<forall>q \<in> set post. matches q \<longrightarrow> peer_load p \<le> peer_load q)"
    using h by blast
next
  assume a: "matches p1 \<and> matches p2 \<and> peer_load p1 < peer_load p2"
  have "peer_load p2 \<le> U64_MAX" by (simp add: U64_MAX_def)
  then have lt: "peer_load p1 < U64_MAX" using a by (blast intro: less_le_trans)
  have "\<not> peer_load p2 < peer_load p1" using a by (simp add: not_less less_imp_le)
  then show "undertheradar_routing_lookup matches [p1, p2] = Some p1"
    using a lt by (simp add: undertheradar_routing_lookup_def Let_def)
next
  assume a: "matches p1 \<and> matches p2 \<and> peer_load p1 < peer_load p2"
  have "peer_load p2 \<le> U64_MAX" by (simp add: U64_MAX_def)
  then have lt: "peer_load p1 < U64_MAX" using a by (blast intro: less_le_trans)
  show "undertheradar_routing_lookup matches [p2, p1] = Some p1"
    using a lt by (auto simp add: undertheradar_routing_lookup_def Let_def)
qed

theorem routing_lookup_first_least_loaded_witness:
  "(\<exists>q \<in> set [loaded_peer 1 5000 3, loaded_peer 2 1000 2, loaded_peer 3 4000 0].
       every_peer q \<and> peer_load q < U64_MAX) \<and>
   undertheradar_routing_lookup every_peer
     [loaded_peer 1 5000 3, loaded_peer 2 1000 2, loaded_peer 3 4000 0] = Some (loaded_peer 2 1000 2) \<and>
   every_peer (loaded_peer 2 1000 2) \<and> every_peer (loaded_peer 3 4000 0) \<and>
   peer_load (loaded_peer 2 1000 2) < peer_load (loaded_peer 3 4000 0) \<and>
   undertheradar_routing_lookup every_peer [loaded_peer 3 4000 0, loaded_peer 2 1000 2]
     = Some (loaded_peer 2 1000 2)"
  using routing_lookup_first_least_loaded
    [of "[loaded_peer 1 5000 3, loaded_peer 2 1000 2, loaded_peer 3 4000 0]" every_peer
        "loaded_peer 2 1000 2" "loaded_peer 3 4000 0"]
  by (simp add: undertheradar_routing_lookup_def every_peer_def loaded_peer_def peer_load_def
        U64_MAX_value Let_def)

end
